theory Spec2Isabelle
  imports Complex_Main "HOL-Library.Sublist"
begin

section \<open>Python values\<close>

text \<open>
  The ledger code is dynamically typed: a \<^verbatim>\<open>Block\<close> read back from disk carries whatever
  JSON values the file held. A value is therefore one of the values \<^verbatim>\<open>json.load\<close> can
  return. A dictionary is an association list in insertion order; lookup takes the first
  binding of a key. A float is the rational number it denotes (every finite double is one).
  A string is a list of characters, each standing for one code point below 256.
\<close>

datatype pyval =
    PNone
  | PBool bool
  | PInt int
  | PFloat rat
  | PStr string
  | PList "pyval list"
  | PDict "(string \<times> pyval) list"

datatype py_error = JSONDecodeError | TypeError | KeyError string | IndexError | ValueError

text \<open>
  The library functions the source calls and does not define: \<^verbatim>\<open>hashlib.sha256(s.encode()).hexdigest()\<close>,
  \<^verbatim>\<open>repr\<close> of a value that is neither a string nor an integer, and \<^verbatim>\<open>json.dumps\<close>.
  Every theorem below holds for all of them.
\<close>

record pylib =
  sha256_hexdigest :: "string \<Rightarrow> string"
  repr :: "pyval \<Rightarrow> string"
  json_dumps :: "pyval \<Rightarrow> string"

subsection \<open>Formatting a value inside an f-string\<close>

definition digit_char :: "nat \<Rightarrow> char" where
  "digit_char d = char_of (48 + d)"

fun str_nat :: "nat \<Rightarrow> string" where
  "str_nat n = (if n < 10 then [digit_char n] else str_nat (n div 10) @ [digit_char (n mod 10)])"

declare str_nat.simps [simp del]

definition str_int :: "int \<Rightarrow> string" where
  "str_int i = (if i < 0 then CHR ''-'' # str_nat (nat (- i)) else str_nat (nat i))"

text \<open>\<^verbatim>\<open>f"{v}"\<close>: a string is inserted as it is, an integer in decimal, anything else
  through its \<^verbatim>\<open>repr\<close>.\<close>

definition py_str :: "pylib \<Rightarrow> pyval \<Rightarrow> string" where
  "py_str L v = (case v of PStr s \<Rightarrow> s | PInt i \<Rightarrow> str_int i | _ \<Rightarrow> repr L v)"

section \<open>Block\<close>

record block =
  index :: pyval
  timestamp :: pyval
  data :: pyval
  previous_hash :: pyval
  hash :: string

text \<open>\<^verbatim>\<open>Block.calculate_hash\<close> (the same in both files).\<close>

definition calculate_hash :: "pylib \<Rightarrow> block \<Rightarrow> string" where
  "calculate_hash L self =
     (let hash_string = py_str L (index self) @ py_str L (timestamp self)
                        @ py_str L (data self) @ py_str L (previous_hash self)
      in sha256_hexdigest L hash_string)"

text \<open>\<^verbatim>\<open>Block.__init__\<close>: the four fields are stored, then the hash is computed from them.\<close>

definition Block_init :: "pylib \<Rightarrow> pyval \<Rightarrow> pyval \<Rightarrow> pyval \<Rightarrow> pyval \<Rightarrow> block" where
  "Block_init L i t d p =
     (let self = \<lparr>index = i, timestamp = t, data = d, previous_hash = p, hash = []\<rparr>
      in self\<lparr>hash := calculate_hash L self\<rparr>)"

definition to_dict :: "block \<Rightarrow> pyval" where
  "to_dict self = PDict
     [(''index'', index self),
      (''timestamp'', timestamp self),
      (''data'', data self),
      (''previous_hash'', previous_hash self),
      (''hash'', PStr (hash self))]"

section \<open>Blockchain kept in memory (integrated\_nlp\_blockchain\_system.py)\<close>

text \<open>The clock reading \<^verbatim>\<open>datetime.now().isoformat()\<close> is an input of each operation.\<close>

definition create_genesis_block :: "pylib \<Rightarrow> string \<Rightarrow> block" where
  "create_genesis_block L now =
     Block_init L (PInt 0) (PStr now) (PDict [(''data'', PStr ''Genesis Block'')]) (PStr ''0'')"

text \<open>\<^verbatim>\<open>self.chain[-1]\<close> raises \<^verbatim>\<open>IndexError\<close> on an empty list.\<close>

definition get_latest_block :: "block list \<Rightarrow> py_error + block" where
  "get_latest_block self_chain = (case self_chain of [] \<Rightarrow> Inl IndexError | _ \<Rightarrow> Inr (last self_chain))"

definition Blockchain_mem_init :: "pylib \<Rightarrow> string \<Rightarrow> block list" where
  "Blockchain_mem_init L now = [create_genesis_block L now]"

definition add_block_mem :: "pylib \<Rightarrow> string \<Rightarrow> pyval \<Rightarrow> block list \<Rightarrow> py_error + block list" where
  "add_block_mem L now d self_chain =
     (let idx = PInt (int (length self_chain)) in
      case get_latest_block self_chain of
        Inl e \<Rightarrow> Inl e
      | Inr latest \<Rightarrow>
          (let new_block = Block_init L idx (PStr now) d (PStr (hash latest))
           in Inr (self_chain @ [new_block])))"

fun add_blocks_mem :: "pylib \<Rightarrow> (string \<times> pyval) list \<Rightarrow> block list \<Rightarrow> py_error + block list" where
  "add_blocks_mem L [] self_chain = Inr self_chain"
| "add_blocks_mem L ((now, d) # ps) self_chain =
     (case add_block_mem L now d self_chain of
        Inl e \<Rightarrow> Inl e
      | Inr self_chain' \<Rightarrow> add_blocks_mem L ps self_chain')"

section \<open>Blockchain persisted to a file (grace-cli.py)\<close>

text \<open>
  The file \<^verbatim>\<open>hopper/blockchain.json\<close>: absent, holding text that \<^verbatim>\<open>json.load\<close> rejects
  (an empty file, for one), or holding a JSON document. \<^verbatim>\<open>json.dump\<close> followed by
  \<^verbatim>\<open>json.load\<close> returns the value written, so the document is kept as a value. Failures
  of the file system itself are not modelled.
\<close>

datatype storage = NoFile | BadText | Doc pyval

record ledger =
  chain :: "block list"
  blockchain_file :: storage

definition save_chain :: "ledger \<Rightarrow> ledger" where
  "save_chain self = self\<lparr>blockchain_file := Doc (PList (map to_dict (chain self)))\<rparr>"

text \<open>\<^verbatim>\<open>for b in data\<close>: a list yields its elements, a dictionary its keys, a string its
  characters; nothing else is iterable.\<close>

definition py_iter :: "pyval \<Rightarrow> py_error + pyval list" where
  "py_iter v = (case v of
       PList xs \<Rightarrow> Inr xs
     | PDict kvs \<Rightarrow> Inr (map (\<lambda>kv. PStr (fst kv)) kvs)
     | PStr s \<Rightarrow> Inr (map (\<lambda>c. PStr [c]) s)
     | _ \<Rightarrow> Inl TypeError)"

text \<open>\<^verbatim>\<open>b['key']\<close>: only a dictionary can be subscripted by a string.\<close>

definition py_getitem :: "pyval \<Rightarrow> string \<Rightarrow> py_error + pyval" where
  "py_getitem b k = (case b of
       PDict kvs \<Rightarrow> (case map_of kvs k of None \<Rightarrow> Inl (KeyError k) | Some v \<Rightarrow> Inr v)
     | _ \<Rightarrow> Inl TypeError)"

text \<open>\<^verbatim>\<open>Block(b['index'], b['timestamp'], b['data'], b['previous_hash'])\<close>: the arguments are
  evaluated from left to right and the first failure is raised.\<close>

definition load_block :: "pylib \<Rightarrow> pyval \<Rightarrow> py_error + block" where
  "load_block L b =
     (case py_getitem b ''index'' of Inl e \<Rightarrow> Inl e | Inr i \<Rightarrow>
     (case py_getitem b ''timestamp'' of Inl e \<Rightarrow> Inl e | Inr t \<Rightarrow>
     (case py_getitem b ''data'' of Inl e \<Rightarrow> Inl e | Inr d \<Rightarrow>
     (case py_getitem b ''previous_hash'' of Inl e \<Rightarrow> Inl e | Inr p \<Rightarrow>
        Inr (Block_init L i t d p)))))"

fun load_blocks :: "pylib \<Rightarrow> pyval list \<Rightarrow> py_error + block list" where
  "load_blocks L [] = Inr []"
| "load_blocks L (b # bs) =
     (case load_block L b of
        Inl e \<Rightarrow> Inl e
      | Inr x \<Rightarrow> (case load_blocks L bs of Inl e \<Rightarrow> Inl e | Inr xs \<Rightarrow> Inr (x # xs)))"

definition load_chain :: "pylib \<Rightarrow> storage \<Rightarrow> py_error + block list" where
  "load_chain L f = (case f of
       NoFile \<Rightarrow> Inr []
     | BadText \<Rightarrow> Inl JSONDecodeError
     | Doc v \<Rightarrow> (case py_iter v of Inl e \<Rightarrow> Inl e | Inr bs \<Rightarrow> load_blocks L bs))"

text \<open>\<^verbatim>\<open>Blockchain.__init__\<close>, run on the file as it is found.\<close>

definition Blockchain_init :: "pylib \<Rightarrow> string \<Rightarrow> storage \<Rightarrow> py_error + ledger" where
  "Blockchain_init L now f =
     (case load_chain L f of
        Inl e \<Rightarrow> Inl e
      | Inr c \<Rightarrow>
          if c = [] then Inr (save_chain \<lparr>chain = [create_genesis_block L now], blockchain_file = f\<rparr>)
          else Inr \<lparr>chain = c, blockchain_file = f\<rparr>)"

definition add_block :: "pylib \<Rightarrow> string \<Rightarrow> pyval \<Rightarrow> ledger \<Rightarrow> py_error + ledger" where
  "add_block L now d self =
     (let idx = PInt (int (length (chain self))) in
      case get_latest_block (chain self) of
        Inl e \<Rightarrow> Inl e
      | Inr latest \<Rightarrow>
          (let new_block = Block_init L idx (PStr now) d (PStr (hash latest))
           in Inr (save_chain (self\<lparr>chain := chain self @ [new_block]\<rparr>))))"

fun add_blocks :: "pylib \<Rightarrow> (string \<times> pyval) list \<Rightarrow> ledger \<Rightarrow> py_error + ledger" where
  "add_blocks L [] self = Inr self"
| "add_blocks L ((now, d) # ps) self =
     (case add_block L now d self of
        Inl e \<Rightarrow> Inl e
      | Inr self' \<Rightarrow> add_blocks L ps self')"

text \<open>The ledgers a program can hold: one returned by the constructor, then grown by
  \<^verbatim>\<open>add_block\<close>. No code assigns to a field of a \<^verbatim>\<open>Block\<close> after its construction.\<close>

inductive reachable :: "pylib \<Rightarrow> ledger \<Rightarrow> bool" for L :: pylib where
  opened: "Blockchain_init L now f = Inr self \<Longrightarrow> reachable L self"
| appended: "reachable L self \<Longrightarrow> add_block L now d self = Inr self' \<Longrightarrow> reachable L self'"

section \<open>Searching the chain\<close>

text \<open>Python's \<^verbatim>\<open>str.lower\<close> on code points below 256: the letters A to Z and the
  Latin-1 capitals (192 to 222 without the multiplication sign 215) move up by 32.\<close>

definition lower_char :: "char \<Rightarrow> char" where
  "lower_char c =
     (let n = (of_char c :: nat)
      in if (65 \<le> n \<and> n \<le> 90) \<or> (192 \<le> n \<and> n \<le> 222 \<and> n \<noteq> 215) then char_of (n + 32) else c)"

definition lower :: "string \<Rightarrow> string" where
  "lower s = map lower_char s"

text \<open>The loop of \<^verbatim>\<open>query_knowledge\<close> over \<^verbatim>\<open>self.chain[1:]\<close>; \<^verbatim>\<open>results\<close> is the accumulator
  and \<^verbatim>\<open>x in y\<close> on strings is \<^const>\<open>sublist\<close>. The serialiser is \<^verbatim>\<open>json.dumps\<close> in grace-cli.py
  and \<^verbatim>\<open>str\<close> in integrated\_nlp\_blockchain\_system.py.\<close>

fun query_loop :: "(pyval \<Rightarrow> string) \<Rightarrow> string \<Rightarrow> block list \<Rightarrow> pyval list \<Rightarrow> pyval list" where
  "query_loop ser query [] results = results"
| "query_loop ser query (b # bs) results =
     query_loop ser query bs
       (if sublist (lower query) (lower (ser (data b))) then results @ [data b] else results)"

definition query_knowledge :: "pylib \<Rightarrow> block list \<Rightarrow> string \<Rightarrow> pyval list" where
  "query_knowledge L self_chain query = query_loop (json_dumps L) query (drop 1 self_chain) []"

definition query_knowledge_mem :: "pylib \<Rightarrow> block list \<Rightarrow> string \<Rightarrow> pyval list" where
  "query_knowledge_mem L self_chain query = query_loop (py_str L) query (drop 1 self_chain) []"

section \<open>Floating point\<close>

text \<open>
  A Python float is an IEEE 754 double. Each operation returns the double nearest to the
  exact result, ties going to the even significand; that rounding is \<open>double_of_rat\<close>.
  The exponent of the least significant bit never goes below \<open>-1074\<close> (subnormal numbers).
  Results beyond the largest double are not modelled: no score computed here exceeds 1, and
  a word count would need more than \<open>10 ^ 308\<close> words to overflow.
\<close>

fun bit_length :: "nat \<Rightarrow> nat" where
  "bit_length n = (if n = 0 then 0 else Suc (bit_length (n div 2)))"

declare bit_length.simps [simp del]

definition round_half_even :: "rat \<Rightarrow> int" where
  "round_half_even x =
     (let f = \<lfloor>x\<rfloor>; d = x - of_int f
      in if d < 1 / 2 then f else if 1 / 2 < d then f + 1 else if even f then f else f + 1)"

text \<open>For \<open>x > 0\<close>, the \<open>e\<close> with \<open>2 ^ e \<le> x < 2 ^ (e + 1)\<close>.\<close>

definition floor_log2 :: "rat \<Rightarrow> int" where
  "floor_log2 x =
     (let (p, q) = quotient_of x;
          d = int (bit_length (nat p)) - int (bit_length (nat q))
      in if 2 powi d \<le> x then d else d - 1)"

definition double_of_rat :: "rat \<Rightarrow> rat" where
  "double_of_rat x =
     (if x = 0 then 0
      else let e = max (floor_log2 \<bar>x\<bar>) (- 1022); u = 2 powi (e - 52)
           in of_int (round_half_even (x / u)) * u)"

definition float_add :: "rat \<Rightarrow> rat \<Rightarrow> rat" where
  "float_add x y = double_of_rat (x + y)"

definition float_mul :: "rat \<Rightarrow> rat \<Rightarrow> rat" where
  "float_mul x y = double_of_rat (x * y)"

definition float_div :: "rat \<Rightarrow> rat \<Rightarrow> rat" where
  "float_div x y = double_of_rat (x / y)"

text \<open>\<^verbatim>\<open>f"{x:.2f}"\<close> for \<open>x \<ge> 0\<close>: the exact value rounded to two decimals, ties to even.\<close>

definition format_2f :: "rat \<Rightarrow> string" where
  "format_2f x =
     (let n = nat (round_half_even (x * 100))
      in str_nat (n div 100) @ ''.'' @ [digit_char (n div 10 mod 10), digit_char (n mod 10)])"

section \<open>Text\<close>

text \<open>The code points below 256 that \<^verbatim>\<open>str.isspace\<close> accepts.\<close>

definition is_space :: "char \<Rightarrow> bool" where
  "is_space c =
     (let n = (of_char c :: nat)
      in (9 \<le> n \<and> n \<le> 13) \<or> (28 \<le> n \<and> n \<le> 32) \<or> n = 133 \<or> n = 160)"

definition is_digit :: "char \<Rightarrow> bool" where
  "is_digit c = (let n = (of_char c :: nat) in 48 \<le> n \<and> n \<le> 57)"

text \<open>\<^verbatim>\<open>text.split()\<close>: the maximal runs of characters that are not whitespace; \<open>w\<close> is the
  run being read.\<close>

fun split_loop :: "string \<Rightarrow> string \<Rightarrow> string list" where
  "split_loop [] w = (if w = [] then [] else [w])"
| "split_loop (c # cs) w =
     (if is_space c then (if w = [] then split_loop cs [] else w # split_loop cs [])
      else split_loop cs (w @ [c]))"

definition split :: "string \<Rightarrow> string list" where
  "split s = split_loop s []"

definition strip :: "string \<Rightarrow> string" where
  "strip s = rev (dropWhile is_space (rev (dropWhile is_space s)))"

text \<open>\<^verbatim>\<open>content.replace("\n", "\\n")\<close>: a line feed becomes a backslash and the letter n.\<close>

definition replace_newlines :: "string \<Rightarrow> string" where
  "replace_newlines s = concat (map (\<lambda>c. if c = CHR 0x0A then [CHR 0x5C, CHR ''n''] else [c]) s)"

text \<open>\<^verbatim>\<open>re.split(marker, s, flags=re.IGNORECASE)[0]\<close> for a marker of plain characters: the text
  before the first place where the marker occurs, letter case ignored; all of \<open>s\<close> if there is none.\<close>

fun re_split_first :: "string \<Rightarrow> string \<Rightarrow> string" where
  "re_split_first marker [] = []"
| "re_split_first marker (c # cs) =
     (if prefix (lower marker) (lower (c # cs)) then [] else c # re_split_first marker cs)"

section \<open>The pattern of the confidence block\<close>

text \<open>
  The pieces of the regular expression
  \<^verbatim>\<open>Reliability: (0\.\d+).*?Performance: (0\.\d+).*?Context Coherence: (0\.\d+)\<close>:
  plain text, one digit, \<^verbatim>\<open>\d*\<close> (greedy), \<^verbatim>\<open>.*?\<close> (lazy, and with \<^verbatim>\<open>re.DOTALL\<close> the dot
  takes every character), and the two ends of a group. \<^verbatim>\<open>\d+\<close> is \<^verbatim>\<open>\d\d*\<close>.
\<close>

datatype re_tok = Lit string | Digit | Digit_star | Any_star_lazy | Group_open | Group_close

definition grow :: "string option \<Rightarrow> string \<Rightarrow> string option" where
  "grow g s = map_option (\<lambda>x. x @ s) g"

text \<open>
  Matching at the start of \<open>s\<close> by backtracking, the alternatives tried in the order of
  Python's \<^verbatim>\<open>re\<close>: a greedy star takes a character first and gives it back on failure, a
  lazy star goes on first and takes a character on failure. \<open>g\<close> is the text the open
  group has read; the result is the list of the groups' texts.
\<close>

fun re_match :: "re_tok list \<Rightarrow> string \<Rightarrow> string option \<Rightarrow> string list option" where
  "re_match [] s g = Some []"
| "re_match (Lit l # ts) s g =
     (if prefix l s then re_match ts (drop (length l) s) (grow g l) else None)"
| "re_match (Digit # ts) [] g = None"
| "re_match (Digit # ts) (c # cs) g =
     (if is_digit c then re_match ts cs (grow g [c]) else None)"
| "re_match (Digit_star # ts) [] g = re_match ts [] g"
| "re_match (Digit_star # ts) (c # cs) g =
     (if is_digit c
      then (case re_match (Digit_star # ts) cs (grow g [c]) of
              Some r \<Rightarrow> Some r
            | None \<Rightarrow> re_match ts (c # cs) g)
      else re_match ts (c # cs) g)"
| "re_match (Any_star_lazy # ts) [] g = re_match ts [] g"
| "re_match (Any_star_lazy # ts) (c # cs) g =
     (case re_match ts (c # cs) g of
        Some r \<Rightarrow> Some r
      | None \<Rightarrow> re_match (Any_star_lazy # ts) cs (grow g [c]))"
| "re_match (Group_open # ts) s g = re_match ts s (Some [])"
| "re_match (Group_close # ts) s g =
     (case re_match ts s None of
        None \<Rightarrow> None
      | Some r \<Rightarrow> Some ((case g of None \<Rightarrow> [] | Some x \<Rightarrow> x) # r))"

text \<open>\<^verbatim>\<open>re.search\<close>: the match at the leftmost position that has one.\<close>

fun re_search :: "re_tok list \<Rightarrow> string \<Rightarrow> string list option" where
  "re_search ts [] = re_match ts [] None"
| "re_search ts (c # cs) =
     (case re_match ts (c # cs) None of
        Some r \<Rightarrow> Some r
      | None \<Rightarrow> re_search ts cs)"

definition score_group :: "re_tok list" where
  "score_group = [Group_open, Lit ''0.'', Digit, Digit_star, Group_close]"

definition pattern :: "re_tok list" where
  "pattern = [Lit ''Reliability: ''] @ score_group @ [Any_star_lazy]
           @ [Lit ''Performance: ''] @ score_group @ [Any_star_lazy]
           @ [Lit ''Context Coherence: ''] @ score_group"

section \<open>Confidence scores\<close>

definition digits_value :: "string \<Rightarrow> nat" where
  "digits_value s = foldl (\<lambda>a c. 10 * a + (of_char c - 48)) 0 s"

text \<open>\<^verbatim>\<open>float(s)\<close> for a decimal numeral \<open>s\<close> with a point and no exponent, which is all
  a group of the pattern can hold: the double nearest to the number written.\<close>

definition py_float :: "string \<Rightarrow> rat" where
  "py_float s =
     (let ip = takeWhile (\<lambda>c. c \<noteq> CHR ''.'') s;
          fp = drop 1 (dropWhile (\<lambda>c. c \<noteq> CHR ''.'') s)
      in double_of_rat (of_nat (digits_value ip) + of_nat (digits_value fp) / 10 ^ length fp))"

text \<open>A tuple of floats is a list. \<^verbatim>\<open>0.2 * True\<close> is \<^verbatim>\<open>0.2 * 1.0\<close>.\<close>

definition calculate_confidence_scores :: "string \<Rightarrow> rat list" where
  "calculate_confidence_scores text =
     (let word_count = length (split text);
          reliability = min (float_div (of_nat word_count) 1000) (double_of_rat (95 / 100));
          performance = double_of_rat (8 / 10);
          context_coherence =
            float_add (double_of_rat (7 / 10))
              (float_mul (double_of_rat (2 / 10))
                 (if sublist ''context'' (lower text) then 1 else 0))
      in [reliability, performance, context_coherence])"

definition extract_confidence_scores :: "string \<Rightarrow> rat list" where
  "extract_confidence_scores text =
     (case re_search pattern text of
        Some groups \<Rightarrow> map py_float groups
      | None \<Rightarrow> calculate_confidence_scores text)"

record GenAIConfidenceAssessment =
  reliability :: rat
  performance :: rat
  context_coherence :: rat

definition calculate_overall_confidence :: "GenAIConfidenceAssessment \<Rightarrow> rat" where
  "calculate_overall_confidence self =
     float_div (float_add (float_add (reliability self) (performance self)) (context_coherence self)) 3"

definition assessment_to_dict :: "GenAIConfidenceAssessment \<Rightarrow> pyval" where
  "assessment_to_dict self = PDict
     [(''reliability'', PFloat (reliability self)),
      (''performance'', PFloat (performance self)),
      (''context_coherence'', PFloat (context_coherence self)),
      (''overall_confidence'', PFloat (calculate_overall_confidence self))]"

record NLPResponse =
  response_type :: string
  content :: pyval
  assessment :: GenAIConfidenceAssessment

definition add_nlp_response :: "pylib \<Rightarrow> string \<Rightarrow> NLPResponse \<Rightarrow> ledger \<Rightarrow> py_error + ledger" where
  "add_nlp_response L now response self =
     (let d = PDict
        [(''response_type'', PStr (response_type response)),
         (''content'', content response),
         (''assessment'', assessment_to_dict (assessment response))]
      in add_block L now d self)"

section \<open>Recording one reply\<close>

text \<open>
  \<^verbatim>\<open>process_grace_response\<close>; the module's \<^verbatim>\<open>nlp_chain\<close> is passed in and returned. Unpacking
  the scores into three names raises \<^verbatim>\<open>ValueError\<close> unless there are three of them.
\<close>

definition process_grace_response ::
  "pylib \<Rightarrow> string \<Rightarrow> string \<Rightarrow> string \<Rightarrow> ledger \<Rightarrow> py_error + ((string \<times> string) \<times> ledger)" where
  "process_grace_response L now grace_response context_text nlp_chain =
     (if sublist ''EXIT'' grace_response then Inr ((''exit'', context_text), nlp_chain)
      else case extract_confidence_scores grace_response of
        [r, p, c] \<Rightarrow>
          (let assessment = \<lparr>reliability = r, performance = p, context_coherence = c\<rparr>;
               content = strip (re_split_first ''GenAI Confidence Assessment:'' grace_response);
               formatted_content = replace_newlines content;
               response = \<lparr>response_type = ''Conversation'', content = PStr formatted_content,
                           assessment = assessment\<rparr>
           in case add_nlp_response L now response nlp_chain of
                Inl e \<Rightarrow> Inl e
              | Inr nlp_chain' \<Rightarrow>
                  Inr ((''Response added to the blockchain. Overall confidence: ''
                          @ format_2f (calculate_overall_confidence assessment),
                        context_text @ [CHR 0x0A] @ ''Added response: '' @ take 100 content @ ''...''),
                       nlp_chain'))
      | _ \<Rightarrow> Inl ValueError)"

section \<open>Scores as the pattern reads them\<close>


section \<open>Editing the stored file\<close>

text \<open>\<^verbatim>\<open>d[k] = v\<close> on a stored record, as an edit of the file would do it; a value that is
  not a dictionary is left alone.\<close>

fun dict_store :: "string \<Rightarrow> pyval \<Rightarrow> (string \<times> pyval) list \<Rightarrow> (string \<times> pyval) list" where
  "dict_store k v [] = [(k, v)]"
| "dict_store k v ((k', v') # kvs) =
     (if k' = k then (k, v) # kvs else (k', v') # dict_store k v kvs)"

definition set_item :: "pyval \<Rightarrow> string \<Rightarrow> pyval \<Rightarrow> pyval" where
  "set_item d k v = (case d of PDict kvs \<Rightarrow> PDict (dict_store k v kvs) | _ \<Rightarrow> d)"

section \<open>A stand-in library for worked examples\<close>

text \<open>The examples below are evaluated with a hash that puts a mark before its input and
  serialisers that only show strings. The theorems hold for every library.\<close>

definition example_lib :: pylib where
  "example_lib =
     \<lparr>sha256_hexdigest = (\<lambda>s. CHR ''#'' # s),
      repr = (\<lambda>v. ''<object>''),
      json_dumps = (\<lambda>v. case v of PStr s \<Rightarrow> s | _ \<Rightarrow> ''<object>'')\<rparr>"

section \<open>Blocks and the chain invariant\<close>

lemma calculate_hash_hash_update [simp]:
  "calculate_hash L (b\<lparr>hash := h\<rparr>) = calculate_hash L b"
  by (simp add: calculate_hash_def)

lemma Block_init_fields [simp]:
  "index (Block_init L i t d p) = i"
  "timestamp (Block_init L i t d p) = t"
  "data (Block_init L i t d p) = d"
  "previous_hash (Block_init L i t d p) = p"
  by (simp_all add: Block_init_def Let_def)

lemma hash_Block_init [simp]:
  "calculate_hash L (Block_init L i t d p) = hash (Block_init L i t d p)"
  by (simp add: Block_init_def Let_def calculate_hash_def)

lemma add_block_mem_nonempty:
  "c \<noteq> [] \<Longrightarrow> add_block_mem L now d c =
     Inr (c @ [Block_init L (PInt (int (length c))) (PStr now) d (PStr (hash (last c)))])"
  by (cases c) (simp_all add: add_block_mem_def get_latest_block_def Let_def)

text \<open>Any property of non-empty chains that one append keeps holds after a run of appends,
  and the run succeeds, adds one block per payload and keeps the blocks it found.\<close>

lemma add_blocks_mem_invariant:
  assumes "c \<noteq> []" and "P c"
    and step: "\<And>c now d. c \<noteq> [] \<Longrightarrow> P c \<Longrightarrow>
            P (c @ [Block_init L (PInt (int (length c))) (PStr now) d (PStr (hash (last c)))])"
  shows "\<exists>c'. add_blocks_mem L ps c = Inr c' \<and> P c' \<and> length c' = length c + length ps
            \<and> take (length c) c' = c"
  using assms(1,2)
proof (induction ps arbitrary: c)
  case Nil
  then show ?case by simp
next
  case (Cons a ps)
  obtain now d where a: "a = (now, d)" by (cases a)
  let ?c1 = "c @ [Block_init L (PInt (int (length c))) (PStr now) d (PStr (hash (last c)))]"
  have one: "add_block_mem L now d c = Inr ?c1"
    using Cons.prems(1) by (rule add_block_mem_nonempty)
  have ne: "?c1 \<noteq> []" by simp
  have "P ?c1" using Cons.prems by (rule step)
  from Cons.IH [OF ne this] obtain c' where c':
    "add_blocks_mem L ps ?c1 = Inr c'" "P c'" "length c' = length ?c1 + length ps"
    "take (length ?c1) c' = ?c1"
    by blast
  have "take (length c) (take (length ?c1) c') = take (length c) ?c1"
    by (simp only: c'(4))
  then have "take (length c) c' = c" by (simp add: min_def)
  with c' one a show ?case by simp
qed

lemma links_snoc:
  assumes "c \<noteq> []"
    and "\<forall>i. 0 < i \<and> i < length c \<longrightarrow>
           previous_hash (c ! i) = PStr (hash (c ! (i - 1))) \<and> hash (c ! i) = calculate_hash L (c ! i)"
  shows "\<forall>i. 0 < i \<and> i < length (c @ [Block_init L j t d (PStr (hash (last c)))]) \<longrightarrow>
           previous_hash ((c @ [Block_init L j t d (PStr (hash (last c)))]) ! i)
             = PStr (hash ((c @ [Block_init L j t d (PStr (hash (last c)))]) ! (i - 1)))
         \<and> hash ((c @ [Block_init L j t d (PStr (hash (last c)))]) ! i)
             = calculate_hash L ((c @ [Block_init L j t d (PStr (hash (last c)))]) ! i)"
proof (intro allI impI)
  fix i
  let ?c = "c @ [Block_init L j t d (PStr (hash (last c)))]"
  assume i: "0 < i \<and> i < length ?c"
  show "previous_hash (?c ! i) = PStr (hash (?c ! (i - 1))) \<and> hash (?c ! i) = calculate_hash L (?c ! i)"
  proof (cases "i < length c")
    case True
    with assms(2) i have "previous_hash (c ! i) = PStr (hash (c ! (i - 1))) \<and> hash (c ! i) = calculate_hash L (c ! i)"
      by blast
    moreover from True i have "i - 1 < length c" by simp
    ultimately show ?thesis using True by (simp add: nth_append)
  next
    case False
    with i have "i = length c" by simp
    with assms(1) show ?thesis by (simp add: nth_append last_conv_nth)
  qed
qed

lemma indices_snoc:
  assumes "map index c = map (\<lambda>i. PInt (int i)) [0..<length c]"
  shows "map index (c @ [Block_init L (PInt (int (length c))) t d p])
           = map (\<lambda>i. PInt (int i)) [0..<length (c @ [Block_init L (PInt (int (length c))) t d p])]"
  using assms by simp

text \<open>What \<^verbatim>\<open>add_block\<close> of grace-cli.py does to the chain is what the in-memory one does;
  it also rewrites the file.\<close>

lemma add_block_as_mem:
  "add_block L now d self =
     (case add_block_mem L now d (chain self) of
        Inl e \<Rightarrow> Inl e
      | Inr c \<Rightarrow> Inr (self\<lparr>chain := c, blockchain_file := Doc (PList (map to_dict c))\<rparr>))"
  by (simp add: add_block_def add_block_mem_def save_chain_def Let_def split: sum.splits)

lemma add_blocks_as_mem:
  "add_blocks_mem L ps (chain self) = Inr c \<Longrightarrow>
     \<exists>self'. add_blocks L ps self = Inr self' \<and> chain self' = c"
proof (induction ps arbitrary: self)
  case Nil
  then show ?case by simp
next
  case (Cons a ps)
  obtain now d where a: "a = (now, d)" by (cases a)
  from Cons.prems a obtain c1 where c1: "add_block_mem L now d (chain self) = Inr c1"
    and rest: "add_blocks_mem L ps c1 = Inr c"
    by (auto split: sum.splits)
  let ?s1 = "self\<lparr>chain := c1, blockchain_file := Doc (PList (map to_dict c1))\<rparr>"
  have one: "add_block L now d self = Inr ?s1"
    by (simp add: add_block_as_mem c1)
  have "add_blocks_mem L ps (chain ?s1) = Inr c" using rest by simp
  from Cons.IH [OF this] obtain self' where "add_blocks L ps ?s1 = Inr self'" "chain self' = c"
    by blast
  with one a show ?case by simp
qed

lemma Blockchain_init_NoFile:
  "Blockchain_init L now NoFile =
     Inr \<lparr>chain = [create_genesis_block L now],
          blockchain_file = Doc (PList [to_dict (create_genesis_block L now)])\<rparr>"
  by (simp add: Blockchain_init_def load_chain_def save_chain_def)

lemma genesis_links:
  "\<forall>i. 0 < i \<and> i < length [create_genesis_block L now] \<longrightarrow>
     previous_hash ([create_genesis_block L now] ! i) = PStr (hash ([create_genesis_block L now] ! (i - 1)))
     \<and> hash ([create_genesis_block L now] ! i) = calculate_hash L ([create_genesis_block L now] ! i)"
  by simp

lemma genesis_indices:
  "map index [create_genesis_block L now] = map (\<lambda>i. PInt (int i)) [0..<length [create_genesis_block L now]]"
  by (simp add: create_genesis_block_def)

section \<open>Appending to a fresh ledger\<close>

text \<open>
  Claim C1. After any sequence of appends to a freshly created ledger (the constructor of
  grace-cli.py run with no file present, and the in-memory constructor of the other file),
  the run succeeds, both versions hold the same chain, and every block at a position
  \<open>i > 0\<close> has as previous hash the hash of the block at \<open>i - 1\<close> and as hash the value
  \<open>calculate_hash\<close> gives for its own index, timestamp, payload and previous hash.
\<close>

theorem hash_chain_invariant:
  "\<exists>self0 self.
     Blockchain_init L t0 NoFile = Inr self0 \<and> add_blocks L ps self0 = Inr self
     \<and> add_blocks_mem L ps (Blockchain_mem_init L t0) = Inr (chain self)
     \<and> (\<forall>i. 0 < i \<and> i < length (chain self) \<longrightarrow>
            previous_hash (chain self ! i) = PStr (hash (chain self ! (i - 1)))
          \<and> hash (chain self ! i) = calculate_hash L (chain self ! i))"
proof -
  let ?g = "[create_genesis_block L t0]"
  let ?P = "\<lambda>c. \<forall>i. 0 < i \<and> i < length c \<longrightarrow>
            previous_hash (c ! i) = PStr (hash (c ! (i - 1))) \<and> hash (c ! i) = calculate_hash L (c ! i)"
  have "?g \<noteq> []" by simp
  moreover have "?P ?g" by (rule genesis_links)
  moreover have "\<And>c now d. c \<noteq> [] \<Longrightarrow> ?P c \<Longrightarrow>
      ?P (c @ [Block_init L (PInt (int (length c))) (PStr now) d (PStr (hash (last c)))])"
    by (rule links_snoc)
  ultimately obtain c where c: "add_blocks_mem L ps ?g = Inr c" "?P c"
    using add_blocks_mem_invariant [of ?g ?P L ps] by blast
  let ?s0 = "\<lparr>chain = ?g, blockchain_file = Doc (PList [to_dict (create_genesis_block L t0)])\<rparr>"
  have "add_blocks_mem L ps (chain ?s0) = Inr c" using c(1) by simp
  then obtain self where self: "add_blocks L ps ?s0 = Inr self" "chain self = c"
    using add_blocks_as_mem by blast
  have "Blockchain_init L t0 NoFile = Inr ?s0" by (rule Blockchain_init_NoFile)
  with self c show ?thesis
    unfolding Blockchain_mem_init_def by blast
qed

text \<open>The example of one appended payload \<^verbatim>\<open>{"a": 1}\<close>, evaluated with the stand-in library.\<close>

lemma example_genesis_hash:
  "hash (create_genesis_block example_lib ''t0'') = ''#0t0<object>0''"
  by code_simp

lemma example_run:
  "add_blocks_mem example_lib [(''t1'', PDict [(''a'', PInt 1)])] (Blockchain_mem_init example_lib ''t0'')
     = Inr [create_genesis_block example_lib ''t0'',
            Block_init example_lib (PInt 1) (PStr ''t1'') (PDict [(''a'', PInt 1)]) (PStr ''#0t0<object>0'')]"
  by (simp add: Blockchain_mem_init_def add_block_mem_nonempty example_genesis_hash)

theorem hash_chain_invariant_witness:
  "add_blocks_mem example_lib [(''t1'', PDict [(''a'', PInt 1)])] (Blockchain_mem_init example_lib ''t0'')
     = Inr [create_genesis_block example_lib ''t0'',
            Block_init example_lib (PInt 1) (PStr ''t1'') (PDict [(''a'', PInt 1)]) (PStr ''#0t0<object>0'')]
   \<and> 0 < (1::nat)
   \<and> 1 < length [create_genesis_block example_lib ''t0'',
            Block_init example_lib (PInt 1) (PStr ''t1'') (PDict [(''a'', PInt 1)]) (PStr ''#0t0<object>0'')]
   \<and> PStr ''#0t0<object>0'' = PStr (hash (create_genesis_block example_lib ''t0''))
   \<and> hash (Block_init example_lib (PInt 1) (PStr ''t1'') (PDict [(''a'', PInt 1)]) (PStr ''#0t0<object>0''))
       = calculate_hash example_lib
           (Block_init example_lib (PInt 1) (PStr ''t1'') (PDict [(''a'', PInt 1)]) (PStr ''#0t0<object>0''))"
proof -
  let ?g = "create_genesis_block example_lib ''t0''"
  let ?b = "Block_init example_lib (PInt 1) (PStr ''t1'') (PDict [(''a'', PInt 1)]) (PStr ''#0t0<object>0'')"
  from hash_chain_invariant [of example_lib "''t0''" "[(''t1'', PDict [(''a'', PInt 1)])]"]
  obtain self0 self where all: "Blockchain_init example_lib ''t0'' NoFile = Inr self0
     \<and> add_blocks example_lib [(''t1'', PDict [(''a'', PInt 1)])] self0 = Inr self
     \<and> add_blocks_mem example_lib [(''t1'', PDict [(''a'', PInt 1)])]
        (Blockchain_mem_init example_lib ''t0'') = Inr (chain self)
     \<and> (\<forall>i. 0 < i \<and> i < length (chain self) \<longrightarrow>
            previous_hash (chain self ! i) = PStr (hash (chain self ! (i - 1)))
          \<and> hash (chain self ! i) = calculate_hash example_lib (chain self ! i))"
    by (elim exE) (erule that)
  from all have mem: "add_blocks_mem example_lib [(''t1'', PDict [(''a'', PInt 1)])]
        (Blockchain_mem_init example_lib ''t0'') = Inr (chain self)"
    by (elim conjE)
  from all have inv: "\<forall>i. 0 < i \<and> i < length (chain self) \<longrightarrow>
            previous_hash (chain self ! i) = PStr (hash (chain self ! (i - 1)))
          \<and> hash (chain self ! i) = calculate_hash example_lib (chain self ! i)"
    by (elim conjE)
  from mem [unfolded example_run] have eq: "chain self = [?g, ?b]" by simp
  have pre: "0 < (1::nat) \<and> 1 < length (chain self)" by (simp add: eq)
  have n1: "chain self ! 1 = ?b" by (simp add: eq)
  have n0: "chain self ! (1 - 1) = ?g" by (simp add: eq)
  note step = inv [rule_format, OF pre, unfolded n1 n0]
  have fin1: "PStr ''#0t0<object>0'' = PStr (hash ?g)"
    using step [THEN conjunct1] by (simp only: Block_init_fields)
  have fin2: "hash ?b = calculate_hash example_lib ?b"
    using step [THEN conjunct2] .
  show ?thesis
  proof (intro conjI)
    show "add_blocks_mem example_lib [(''t1'', PDict [(''a'', PInt 1)])] (Blockchain_mem_init example_lib ''t0'')
       = Inr [?g, ?b]"
      by (rule example_run)
    show "0 < (1::nat)" by simp
    show "1 < length [?g, ?b]" by simp
    show "PStr ''#0t0<object>0'' = PStr (hash ?g)" by (rule fin1)
    show "hash ?b = calculate_hash example_lib ?b" by (rule fin2)
  qed
qed

text \<open>
  Claim C3. Appending \<open>N\<close> payloads to a freshly created ledger succeeds and yields a chain
  of length \<open>N + 1\<close> whose blocks carry the indices \<open>0, 1, \<dots>, N\<close> in this order, the
  block at position 0 being the genesis block.
\<close>

theorem append_indices:
  "\<exists>self0 self.
     Blockchain_init L t0 NoFile = Inr self0 \<and> add_blocks L ps self0 = Inr self
     \<and> add_blocks_mem L ps (Blockchain_mem_init L t0) = Inr (chain self)
     \<and> length (chain self) = length ps + 1
     \<and> map index (chain self) = map (\<lambda>i. PInt (int i)) [0..<length ps + 1]
     \<and> chain self ! 0 = create_genesis_block L t0"
proof -
  let ?g = "[create_genesis_block L t0]"
  let ?P = "\<lambda>c. map index c = map (\<lambda>i. PInt (int i)) [0..<length c]"
  have "?g \<noteq> []" by simp
  moreover have "?P ?g" by (rule genesis_indices)
  moreover have "\<And>c now d. c \<noteq> [] \<Longrightarrow> ?P c \<Longrightarrow>
      ?P (c @ [Block_init L (PInt (int (length c))) (PStr now) d (PStr (hash (last c)))])"
    by (rule indices_snoc)
  ultimately obtain c where c: "add_blocks_mem L ps ?g = Inr c" "?P c"
    "length c = length ?g + length ps" "take (length ?g) c = ?g"
    using add_blocks_mem_invariant [of ?g ?P L ps] by blast
  from c(3) have len: "length c = length ps + 1" by simp
  from c(4) have "take 1 c ! 0 = create_genesis_block L t0" by simp
  then have first: "c ! 0 = create_genesis_block L t0" by simp
  let ?s0 = "\<lparr>chain = ?g, blockchain_file = Doc (PList [to_dict (create_genesis_block L t0)])\<rparr>"
  have "add_blocks_mem L ps (chain ?s0) = Inr c" using c(1) by simp
  then obtain self where self: "add_blocks L ps ?s0 = Inr self" "chain self = c"
    using add_blocks_as_mem by blast
  have "Blockchain_init L t0 NoFile = Inr ?s0" by (rule Blockchain_init_NoFile)
  with self c(1,2) len first show ?thesis
    unfolding Blockchain_mem_init_def by auto
qed

section \<open>Saving and loading\<close>

lemma load_block_to_dict:
  "load_block L (to_dict b) = Inr (Block_init L (index b) (timestamp b) (data b) (previous_hash b))"
  by (simp add: load_block_def py_getitem_def to_dict_def)

lemma Block_init_rebuild:
  "hash b = calculate_hash L b \<Longrightarrow>
     Block_init L (index b) (timestamp b) (data b) (previous_hash b) = b"
  by (cases b) (simp add: Block_init_def calculate_hash_def Let_def)

lemma load_blocks_map_to_dict:
  "load_blocks L (map to_dict c) =
     Inr (map (\<lambda>b. Block_init L (index b) (timestamp b) (data b) (previous_hash b)) c)"
  by (induction c) (simp_all add: load_block_to_dict)

lemma load_blocks_to_dict:
  "\<forall>b\<in>set c. hash b = calculate_hash L b \<Longrightarrow> load_blocks L (map to_dict c) = Inr c"
  by (simp add: load_blocks_map_to_dict Block_init_rebuild map_idI)

lemma load_block_fields:
  assumes "load_block L d = Inr b"
  shows "py_getitem d ''index'' = Inr (index b) \<and> py_getitem d ''timestamp'' = Inr (timestamp b)
       \<and> py_getitem d ''data'' = Inr (data b) \<and> py_getitem d ''previous_hash'' = Inr (previous_hash b)
       \<and> hash b = calculate_hash L b"
proof -
  from assms obtain i t p q where
    "py_getitem d ''index'' = Inr i" "py_getitem d ''timestamp'' = Inr t"
    "py_getitem d ''data'' = Inr p" "py_getitem d ''previous_hash'' = Inr q"
    "b = Block_init L i t p q"
    by (simp add: load_block_def split: sum.splits)
  then show ?thesis by simp
qed

lemma load_blocks_each:
  "load_blocks L ds = Inr c \<Longrightarrow>
     length c = length ds \<and> (\<forall>i<length ds. load_block L (ds ! i) = Inr (c ! i))"
proof (induction ds arbitrary: c)
  case Nil
  then show ?case by simp
next
  case (Cons d ds)
  from Cons.prems obtain x xs where x: "load_block L d = Inr x" and xs: "load_blocks L ds = Inr xs"
    and c: "c = x # xs"
    by (auto split: sum.splits)
  from Cons.IH [OF xs] have ih: "length xs = length ds" "\<forall>i<length ds. load_block L (ds ! i) = Inr (xs ! i)"
    by simp_all
  show ?case
  proof (intro conjI allI impI)
    show "length c = length (d # ds)" using ih(1) c by simp
  next
    fix i assume "i < length (d # ds)"
    then show "load_block L ((d # ds) ! i) = Inr (c ! i)"
      using x ih(2) c by (cases i) simp_all
  qed
qed

lemma load_blocks_hash:
  assumes "load_blocks L ds = Inr c" and "b \<in> set c"
  shows "hash b = calculate_hash L b"
proof -
  from assms(2) obtain i where i: "i < length c" "c ! i = b"
    by (auto simp: in_set_conv_nth)
  from load_blocks_each [OF assms(1)] i(1) have "load_block L (ds ! i) = Inr (c ! i)"
    by simp
  from load_block_fields [OF this] i(2) show ?thesis by simp
qed

lemma load_chain_hash:
  assumes "load_chain L f = Inr c" and "b \<in> set c"
  shows "hash b = calculate_hash L b"
proof (cases f)
  case NoFile
  with assms show ?thesis by (simp add: load_chain_def)
next
  case BadText
  with assms show ?thesis by (simp add: load_chain_def)
next
  case (Doc v)
  with assms(1) obtain bs where "load_blocks L bs = Inr c"
    by (auto simp: load_chain_def split: sum.splits)
  then show ?thesis using assms(2) by (rule load_blocks_hash)
qed

lemma genesis_hash [simp]:
  "calculate_hash L (create_genesis_block L now) = hash (create_genesis_block L now)"
  by (simp add: create_genesis_block_def)

lemma Blockchain_init_invariant:
  assumes "Blockchain_init L now f = Inr self"
  shows "chain self \<noteq> [] \<and> (\<forall>b\<in>set (chain self). hash b = calculate_hash L b)"
proof -
  from assms obtain c where c: "load_chain L f = Inr c"
    by (auto simp: Blockchain_init_def split: sum.splits)
  show ?thesis
  proof (cases "c = []")
    case True
    with assms c show ?thesis
      by (auto simp: Blockchain_init_def save_chain_def)
  next
    case False
    with assms c have "chain self = c"
      by (auto simp: Blockchain_init_def)
    with False load_chain_hash [OF c] show ?thesis by simp
  qed
qed

lemma add_block_invariant:
  assumes "add_block L now d self = Inr self'"
    and "chain self \<noteq> [] \<and> (\<forall>b\<in>set (chain self). hash b = calculate_hash L b)"
  shows "chain self' \<noteq> [] \<and> (\<forall>b\<in>set (chain self'). hash b = calculate_hash L b)"
proof -
  from assms(2) have ne: "chain self \<noteq> []" by simp
  from assms(1) have "chain self' =
      chain self @ [Block_init L (PInt (int (length (chain self)))) (PStr now) d (PStr (hash (last (chain self))))]"
    by (simp add: add_block_as_mem add_block_mem_nonempty [OF ne]) auto
  with assms(2) show ?thesis by auto
qed

lemma reachable_invariant:
  "reachable L self \<Longrightarrow> chain self \<noteq> [] \<and> (\<forall>b\<in>set (chain self). hash b = calculate_hash L b)"
proof (induction rule: reachable.induct)
  case (opened now f self)
  then show ?case by (rule Blockchain_init_invariant)
next
  case (appended self now d self')
  from appended.hyps(2) appended.IH show ?case by (rule add_block_invariant)
qed

lemma load_saved:
  assumes "chain self \<noteq> [] \<and> (\<forall>b\<in>set (chain self). hash b = calculate_hash L b)"
  shows "Blockchain_init L now (blockchain_file (save_chain self)) = Inr (save_chain self)"
proof -
  have "load_chain L (blockchain_file (save_chain self)) = Inr (chain self)"
    using assms by (simp add: save_chain_def load_chain_def py_iter_def load_blocks_to_dict)
  moreover have "\<lparr>chain = chain self, blockchain_file = blockchain_file (save_chain self)\<rparr> = save_chain self"
    by (simp add: save_chain_def)
  ultimately show ?thesis using assms by (simp add: Blockchain_init_def)
qed

text \<open>
  Claim C5. For every ledger a program can hold (returned by the constructor and grown by
  \<^verbatim>\<open>add_block\<close>), saving the chain and then opening the file that was written succeeds and
  gives back the same chain: the same blocks in the same order, each with the same index,
  timestamp, payload, previous hash and hash.
\<close>

theorem save_then_open_roundtrip:
  assumes "reachable L self"
  shows "Blockchain_init L now (blockchain_file (save_chain self)) = Inr (save_chain self)
       \<and> chain (save_chain self) = chain self"
proof
  from assms have "chain self \<noteq> [] \<and> (\<forall>b\<in>set (chain self). hash b = calculate_hash L b)"
    by (rule reachable_invariant)
  then show "Blockchain_init L now (blockchain_file (save_chain self)) = Inr (save_chain self)"
    by (rule load_saved)
  show "chain (save_chain self) = chain self" by (simp add: save_chain_def)
qed

text \<open>The ledger after one append, saved and opened again, evaluated with the stand-in library.\<close>

lemma example_opened:
  "Blockchain_init example_lib ''t0'' NoFile =
     Inr \<lparr>chain = [create_genesis_block example_lib ''t0''],
          blockchain_file = Doc (PList [to_dict (create_genesis_block example_lib ''t0'')])\<rparr>"
  by (rule Blockchain_init_NoFile)

lemma example_appended:
  "add_block example_lib ''t1'' (PDict [(''a'', PInt 1)])
     \<lparr>chain = [create_genesis_block example_lib ''t0''],
      blockchain_file = Doc (PList [to_dict (create_genesis_block example_lib ''t0'')])\<rparr>
   = Inr \<lparr>chain = [create_genesis_block example_lib ''t0'',
                   Block_init example_lib (PInt 1) (PStr ''t1'') (PDict [(''a'', PInt 1)])
                     (PStr (hash (create_genesis_block example_lib ''t0'')))],
          blockchain_file = Doc (PList [to_dict (create_genesis_block example_lib ''t0''),
                   to_dict (Block_init example_lib (PInt 1) (PStr ''t1'') (PDict [(''a'', PInt 1)])
                     (PStr (hash (create_genesis_block example_lib ''t0''))))])\<rparr>"
  by (simp add: add_block_as_mem add_block_mem_nonempty)

theorem save_then_open_roundtrip_witness:
  "reachable example_lib
     \<lparr>chain = [create_genesis_block example_lib ''t0'',
               Block_init example_lib (PInt 1) (PStr ''t1'') (PDict [(''a'', PInt 1)])
                 (PStr (hash (create_genesis_block example_lib ''t0'')))],
      blockchain_file = Doc (PList [to_dict (create_genesis_block example_lib ''t0''),
               to_dict (Block_init example_lib (PInt 1) (PStr ''t1'') (PDict [(''a'', PInt 1)])
                 (PStr (hash (create_genesis_block example_lib ''t0''))))])\<rparr>
   \<and> Blockchain_init example_lib ''t2''
       (Doc (PList [to_dict (create_genesis_block example_lib ''t0''),
               to_dict (Block_init example_lib (PInt 1) (PStr ''t1'') (PDict [(''a'', PInt 1)])
                 (PStr (hash (create_genesis_block example_lib ''t0''))))]))
     = Inr \<lparr>chain = [create_genesis_block example_lib ''t0'',
               Block_init example_lib (PInt 1) (PStr ''t1'') (PDict [(''a'', PInt 1)])
                 (PStr (hash (create_genesis_block example_lib ''t0'')))],
      blockchain_file = Doc (PList [to_dict (create_genesis_block example_lib ''t0''),
               to_dict (Block_init example_lib (PInt 1) (PStr ''t1'') (PDict [(''a'', PInt 1)])
                 (PStr (hash (create_genesis_block example_lib ''t0''))))])\<rparr>"
proof -
  let ?g = "create_genesis_block example_lib ''t0''"
  let ?b = "Block_init example_lib (PInt 1) (PStr ''t1'') (PDict [(''a'', PInt 1)]) (PStr (hash ?g))"
  let ?s = "\<lparr>chain = [?g, ?b], blockchain_file = Doc (PList [to_dict ?g, to_dict ?b])\<rparr>"
  have r: "reachable example_lib ?s"
    by (rule reachable.appended [OF reachable.opened [OF example_opened] example_appended])
  have sv: "save_chain ?s = ?s" by (simp add: save_chain_def)
  from save_then_open_roundtrip [OF r, of "''t2''"]
  have "Blockchain_init example_lib ''t2'' (blockchain_file (save_chain ?s)) = Inr (save_chain ?s)"
    by (rule conjunct1)
  then have "Blockchain_init example_lib ''t2'' (blockchain_file ?s) = Inr ?s"
    unfolding sv .
  then have "Blockchain_init example_lib ''t2'' (Doc (PList [to_dict ?g, to_dict ?b])) = Inr ?s"
    by simp
  with r show ?thesis by (rule conjI)
qed

section \<open>What loading reads\<close>

lemma map_of_dict_store:
  "map_of (dict_store k v kvs) k' = (if k' = k then Some v else map_of kvs k')"
  by (induction kvs) auto

lemma py_getitem_set_item:
  "k' \<noteq> k \<Longrightarrow> py_getitem (set_item d k v) k' = py_getitem d k'"
  by (cases d) (simp_all add: py_getitem_def set_item_def map_of_dict_store)

lemma load_block_set_hash:
  "load_block L (set_item d ''hash'' v) = load_block L d"
proof -
  have eqs: "py_getitem (set_item d ''hash'' v) ''index'' = py_getitem d ''index''"
    "py_getitem (set_item d ''hash'' v) ''timestamp'' = py_getitem d ''timestamp''"
    "py_getitem (set_item d ''hash'' v) ''data'' = py_getitem d ''data''"
    "py_getitem (set_item d ''hash'' v) ''previous_hash'' = py_getitem d ''previous_hash''"
    by (simp_all add: py_getitem_set_item)
  show ?thesis unfolding load_block_def eqs ..
qed

lemma load_blocks_set_hash:
  "load_blocks L (map (\<lambda>d. set_item d ''hash'' (h d)) ds) = load_blocks L ds"
  by (induction ds) (simp_all add: load_block_set_hash split: sum.splits)

text \<open>
  Claim C10. Loading builds each block from the stored index, timestamp, payload and
  previous hash alone and computes its hash at construction: overwriting the stored
  \<^verbatim>\<open>hash\<close> entries with any values \<open>h\<close> changes nothing in what is loaded, the fields of
  the loaded block at each position are the four stored entries, and the hash of every
  loaded block is \<open>calculate_hash\<close> of its loaded fields.
\<close>

theorem stored_hash_never_read:
  "load_chain L (Doc (PList (map (\<lambda>d. set_item d ''hash'' (h d)) ds))) = load_chain L (Doc (PList ds))
   \<and> (load_chain L (Doc (PList ds)) = Inr c \<longrightarrow>
        length c = length ds
        \<and> (\<forall>i<length ds.
              py_getitem (ds ! i) ''index'' = Inr (index (c ! i))
            \<and> py_getitem (ds ! i) ''timestamp'' = Inr (timestamp (c ! i))
            \<and> py_getitem (ds ! i) ''data'' = Inr (data (c ! i))
            \<and> py_getitem (ds ! i) ''previous_hash'' = Inr (previous_hash (c ! i))))
   \<and> (load_chain L f = Inr c \<longrightarrow> (\<forall>b\<in>set c. hash b = calculate_hash L b))"
proof (intro conjI impI)
  show "load_chain L (Doc (PList (map (\<lambda>d. set_item d ''hash'' (h d)) ds))) = load_chain L (Doc (PList ds))"
    by (simp add: load_chain_def py_iter_def load_blocks_set_hash)
next
  assume "load_chain L (Doc (PList ds)) = Inr c"
  then have "load_blocks L ds = Inr c" by (simp add: load_chain_def py_iter_def)
  from load_blocks_each [OF this]
  have len: "length c = length ds" and each: "\<forall>i<length ds. load_block L (ds ! i) = Inr (c ! i)"
    by simp_all
  show "length c = length ds" by (rule len)
  show "\<forall>i<length ds.
              py_getitem (ds ! i) ''index'' = Inr (index (c ! i))
            \<and> py_getitem (ds ! i) ''timestamp'' = Inr (timestamp (c ! i))
            \<and> py_getitem (ds ! i) ''data'' = Inr (data (c ! i))
            \<and> py_getitem (ds ! i) ''previous_hash'' = Inr (previous_hash (c ! i))"
  proof (intro allI impI)
    fix i assume "i < length ds"
    with each have "load_block L (ds ! i) = Inr (c ! i)" by simp
    from load_block_fields [OF this]
    show "py_getitem (ds ! i) ''index'' = Inr (index (c ! i))
            \<and> py_getitem (ds ! i) ''timestamp'' = Inr (timestamp (c ! i))
            \<and> py_getitem (ds ! i) ''data'' = Inr (data (c ! i))
            \<and> py_getitem (ds ! i) ''previous_hash'' = Inr (previous_hash (c ! i))"
      by simp
  qed
next
  assume "load_chain L f = Inr c"
  then show "\<forall>b\<in>set c. hash b = calculate_hash L b"
    using load_chain_hash by blast
qed

text \<open>A stored genesis record whose \<^verbatim>\<open>hash\<close> entry is wrong, and the same record with the
  entry forged: both load as the same block.\<close>

lemma example_load_record:
  "load_chain example_lib (Doc (PList [PDict
       [(''index'', PInt 0), (''timestamp'', PStr ''t0''),
        (''data'', PDict [(''data'', PStr ''Genesis Block'')]),
        (''previous_hash'', PStr ''0''), (''hash'', PStr ''x'')]]))
   = Inr [create_genesis_block example_lib ''t0'']"
  by (simp add: load_chain_def py_iter_def load_block_def py_getitem_def create_genesis_block_def)

theorem stored_hash_never_read_witness:
  "load_chain example_lib (Doc (PList [PDict
       [(''index'', PInt 0), (''timestamp'', PStr ''t0''),
        (''data'', PDict [(''data'', PStr ''Genesis Block'')]),
        (''previous_hash'', PStr ''0''), (''hash'', PStr ''x'')]]))
     = Inr [create_genesis_block example_lib ''t0'']
   \<and> load_chain example_lib (Doc (PList [PDict
       [(''index'', PInt 0), (''timestamp'', PStr ''t0''),
        (''data'', PDict [(''data'', PStr ''Genesis Block'')]),
        (''previous_hash'', PStr ''0''), (''hash'', PStr ''forged'')]]))
     = Inr [create_genesis_block example_lib ''t0'']
   \<and> create_genesis_block example_lib ''t0'' \<in> set [create_genesis_block example_lib ''t0'']
   \<and> hash (create_genesis_block example_lib ''t0'')
       = calculate_hash example_lib (create_genesis_block example_lib ''t0'')"
proof -
  let ?d = "PDict [(''index'', PInt 0), (''timestamp'', PStr ''t0''),
        (''data'', PDict [(''data'', PStr ''Genesis Block'')]),
        (''previous_hash'', PStr ''0''), (''hash'', PStr ''x'')]"
  let ?d' = "PDict [(''index'', PInt 0), (''timestamp'', PStr ''t0''),
        (''data'', PDict [(''data'', PStr ''Genesis Block'')]),
        (''previous_hash'', PStr ''0''), (''hash'', PStr ''forged'')]"
  let ?g = "create_genesis_block example_lib ''t0''"
  note inst = stored_hash_never_read [of example_lib "\<lambda>d. PStr ''forged''" "[?d]" "[?g]" "Doc (PList [?d])"]
  have forged: "map (\<lambda>d. set_item d ''hash'' (PStr ''forged'')) [?d] = [?d']"
    by (simp add: set_item_def)
  from inst [THEN conjunct1, unfolded forged example_load_record]
  have a: "load_chain example_lib (Doc (PList [?d'])) = Inr [?g]" .
  have mem: "?g \<in> set [?g]" by simp
  from inst [THEN conjunct2, THEN conjunct2, rule_format, OF example_load_record mem]
  have b: "hash ?g = calculate_hash example_lib ?g" .
  show ?thesis
  proof (intro conjI)
    show "load_chain example_lib (Doc (PList [?d])) = Inr [?g]" by (rule example_load_record)
    show "load_chain example_lib (Doc (PList [?d'])) = Inr [?g]" by (rule a)
    show "?g \<in> set [?g]" by (rule mem)
    show "hash ?g = calculate_hash example_lib ?g" by (rule b)
  qed
qed

section \<open>Opening a ledger\<close>








section \<open>Searching\<close>

lemma query_loop_filter:
  "query_loop ser q bs results =
     results @ map data (filter (\<lambda>b. sublist (lower q) (lower (ser (data b)))) bs)"
  by (induction bs arbitrary: results) simp_all

text \<open>
  Claim C8. For every chain and query, the search (with \<^verbatim>\<open>json.dumps\<close> in grace-cli.py, with
  \<^verbatim>\<open>str\<close> in the other file) returns the payloads of exactly those blocks after the first
  whose serialised payload, in lower case, contains the query in lower case, in the
  order of the chain. The first block is never looked at: replacing it changes no result,
  and a chain holding only the genesis block gives no result.
\<close>

theorem search_returns_matches_in_order:
  "query_knowledge L c q =
     map data (filter (\<lambda>b. sublist (lower q) (lower (json_dumps L (data b)))) (drop 1 c))
   \<and> query_knowledge_mem L c q =
     map data (filter (\<lambda>b. sublist (lower q) (lower (py_str L (data b)))) (drop 1 c))
   \<and> query_knowledge L (g # rest) q = query_knowledge L (g' # rest) q
   \<and> query_knowledge_mem L (g # rest) q = query_knowledge_mem L (g' # rest) q
   \<and> query_knowledge L [g] q = [] \<and> query_knowledge_mem L [g] q = []"
  by (simp add: query_knowledge_def query_knowledge_mem_def query_loop_filter)

text \<open>A query in capitals finds the payload that has the word in mixed case, and only it.\<close>

lemma lower_example_query: "lower ''SUMMARY'' = ''summary''"
  by code_simp

lemma lower_example_payload: "lower ''A Summary of the text'' = ''a summary of the text''"
  by code_simp

lemma lower_example_genesis: "lower ''<object>'' = ''<object>''"
  by code_simp

lemma lower_example_other: "lower ''Bonjour'' = ''bonjour''"
  by code_simp

lemma sublist_example_yes: "sublist ''summary'' ''a summary of the text''"
  by code_simp

lemma sublist_example_no: "\<not> sublist ''summary'' ''bonjour''"
  by code_simp

theorem search_returns_matches_in_order_witness:
  "query_knowledge example_lib
     [create_genesis_block example_lib ''t0'',
      Block_init example_lib (PInt 1) (PStr ''t1'') (PStr ''A Summary of the text'') (PStr ''h0''),
      Block_init example_lib (PInt 2) (PStr ''t2'') (PStr ''Bonjour'') (PStr ''h1'')]
     ''SUMMARY''
   = [PStr ''A Summary of the text'']"
proof -
  let ?g = "create_genesis_block example_lib ''t0''"
  let ?b1 = "Block_init example_lib (PInt 1) (PStr ''t1'') (PStr ''A Summary of the text'') (PStr ''h0'')"
  let ?b2 = "Block_init example_lib (PInt 2) (PStr ''t2'') (PStr ''Bonjour'') (PStr ''h1'')"
  have d: "json_dumps example_lib (PStr ''A Summary of the text'') = ''A Summary of the text''"
    "json_dumps example_lib (PStr ''Bonjour'') = ''Bonjour''"
    by (simp_all add: example_lib_def)
  from search_returns_matches_in_order [of example_lib "[?g, ?b1, ?b2]" "''SUMMARY''"]
  have "query_knowledge example_lib [?g, ?b1, ?b2] ''SUMMARY'' =
     map data (filter (\<lambda>b. sublist (lower ''SUMMARY'') (lower (json_dumps example_lib (data b))))
       (drop 1 [?g, ?b1, ?b2]))"
    by (rule conjunct1)
  also have "\<dots> = [PStr ''A Summary of the text'']"
    by (simp add: d lower_example_query lower_example_payload lower_example_other
        sublist_example_yes sublist_example_no)
  finally show ?thesis .
qed

section \<open>The exit marker\<close>

text \<open>
  Claim C9. For every reply that contains the text \<^verbatim>\<open>EXIT\<close> in capitals,
  \<^verbatim>\<open>process_grace_response\<close> returns the sentinel \<^verbatim>\<open>"exit"\<close> with the context it was given,
  and the ledger (chain and file) is the one it was given: nothing is appended.
\<close>

theorem exit_marker_appends_nothing:
  "sublist ''EXIT'' grace_response \<Longrightarrow>
     process_grace_response L now grace_response context_text nlp_chain
       = Inr ((''exit'', context_text), nlp_chain)"
  by (simp add: process_grace_response_def)

lemma sublist_exit_example: "sublist ''EXIT'' ''Fair winds! EXIT''"
  by code_simp

theorem exit_marker_appends_nothing_witness:
  "sublist ''EXIT'' ''Fair winds! EXIT''
   \<and> process_grace_response example_lib ''t1'' ''Fair winds! EXIT'' ''earlier talk''
        \<lparr>chain = [create_genesis_block example_lib ''t0''],
         blockchain_file = Doc (PList [to_dict (create_genesis_block example_lib ''t0'')])\<rparr>
     = Inr ((''exit'', ''earlier talk''),
        \<lparr>chain = [create_genesis_block example_lib ''t0''],
         blockchain_file = Doc (PList [to_dict (create_genesis_block example_lib ''t0'')])\<rparr>)"
  using sublist_exit_example exit_marker_appends_nothing [OF sublist_exit_example]
  by (rule conjI)

section \<open>Rounding to a double\<close>

text \<open>The exponent found by \<open>floor_log2\<close> is the right one, so a double can be computed
  from bounds on the number and the rounding of its scaled value.\<close>

lemma bit_length_bounds:
  "0 < n \<Longrightarrow> 2 ^ bit_length n \<le> 2 * n \<and> n < 2 ^ bit_length n"
proof (induction n rule: bit_length.induct)
  case (1 n)
  show ?case
  proof (cases "n div 2 = 0")
    case True
    with "1.prems" have "n = 1" by (simp add: div_eq_0_iff) 
    then show ?thesis by (simp add: bit_length.simps)
  next
    case False
    with "1.prems" "1.IH" have ih: "2 ^ bit_length (n div 2) \<le> 2 * (n div 2)"
      "n div 2 < 2 ^ bit_length (n div 2)"
      by simp_all
    have bl: "bit_length n = Suc (bit_length (n div 2))"
      using "1.prems" by (subst bit_length.simps) simp
    have "2 * (n div 2) \<le> n" by simp
    with ih(1) have a: "2 ^ bit_length n \<le> 2 * n" by (simp add: bl)
    from ih(2) have "Suc (n div 2) \<le> 2 ^ bit_length (n div 2)" by simp
    then have "2 * Suc (n div 2) \<le> 2 ^ bit_length n" by (simp add: bl)
    moreover have "n < 2 * Suc (n div 2)" by simp
    ultimately have "n < 2 ^ bit_length n" by linarith
    with a show ?thesis ..
  qed
qed

lemma floor_log2_bounds:
  assumes "0 < x"
  shows "2 powi floor_log2 x \<le> x \<and> x < 2 powi (floor_log2 x + 1)"
proof -
  obtain p q where pq: "quotient_of x = (p, q)" by (cases "quotient_of x")
  then have q: "0 < q" by (rule quotient_of_denom_pos)
  from pq have x: "x = of_int p / of_int q" by (rule quotient_of_div)
  with assms q have p: "0 < p" by (simp add: zero_less_divide_iff)
  define a b where "a = nat p" and "b = nat q"
  have a: "0 < a" and b: "0 < b" using p q by (simp_all add: a_def b_def)
  have xa: "x = of_nat a / of_nat b" using x p q by (simp add: a_def b_def)
  define A B where "A = bit_length a" and "B = bit_length b"
  from bit_length_bounds [OF a] have A: "2 ^ A \<le> 2 * a" "a < 2 ^ A" by (simp_all add: A_def)
  from bit_length_bounds [OF b] have B: "2 ^ B \<le> 2 * b" "b < 2 ^ B" by (simp_all add: B_def)
  have rA1: "(2::rat) ^ A \<le> 2 * of_nat a"
    using A(1) by (metis of_nat_le_iff of_nat_mult of_nat_numeral of_nat_power)
  have rA2: "(of_nat a :: rat) < 2 ^ A"
    using A(2) by (metis of_nat_less_iff of_nat_numeral of_nat_power)
  have rB1: "(2::rat) ^ B \<le> 2 * of_nat b"
    using B(1) by (metis of_nat_le_iff of_nat_mult of_nat_numeral of_nat_power)
  have rB2: "(of_nat b :: rat) < 2 ^ B"
    using B(2) by (metis of_nat_less_iff of_nat_numeral of_nat_power)
  have bpos: "(0::rat) < of_nat b" using b by simp
  have apos: "(0::rat) < of_nat a" using a by simp
  define d where "d = int A - int B"
  have pd: "(2::rat) powi d = 2 ^ A / 2 ^ B"
    by (simp add: d_def power_int_diff)
  have pd1: "(2::rat) powi (d + 1) = 2 * 2 ^ A / 2 ^ B"
    by (simp add: power_int_add pd)
  have pdm: "(2::rat) powi (d - 1) = 2 ^ A / (2 * 2 ^ B)"
    by (simp add: power_int_diff pd)
  have up: "x < 2 powi (d + 1)"
  proof -
    have "of_nat a * (2::rat) ^ B < 2 ^ A * (2 * of_nat b)"
    proof -
      have "of_nat a * (2::rat) ^ B < 2 ^ A * 2 ^ B" using rA2 by simp
      also have "\<dots> \<le> 2 ^ A * (2 * of_nat b)" using rB1 by simp
      finally show ?thesis .
    qed
    then have "of_nat a / of_nat b < 2 * 2 ^ A / (2::rat) ^ B"
      using bpos by (simp add: field_simps)
    then show ?thesis by (simp add: xa pd1)
  qed
  have low: "2 powi (d - 1) < x"
  proof -
    have "(2::rat) ^ A * of_nat b < 2 * of_nat a * 2 ^ B"
    proof -
      have "(2::rat) ^ A * of_nat b \<le> 2 * of_nat a * of_nat b" using rA1 bpos by simp
      also have "\<dots> < 2 * of_nat a * 2 ^ B" using rB2 apos by simp
      finally show ?thesis .
    qed
    then have "(2::rat) ^ A / (2 * 2 ^ B) < of_nat a / of_nat b"
      using bpos by (simp add: field_simps)
    then show ?thesis by (simp add: xa pdm)
  qed
  have fl: "floor_log2 x = (if 2 powi d \<le> x then d else d - 1)"
    by (simp add: floor_log2_def pq Let_def d_def A_def B_def a_def b_def)
  show ?thesis
  proof (cases "2 powi d \<le> x")
    case True
    with fl up show ?thesis by simp
  next
    case False
    with fl low show ?thesis by simp
  qed
qed

lemma floor_log2_unique:
  assumes "0 < x" and "2 powi e \<le> x" and "x < 2 powi (e + 1)"
  shows "floor_log2 x = e"
proof -
  from floor_log2_bounds [OF assms(1)]
  have b: "2 powi floor_log2 x \<le> x" "x < 2 powi (floor_log2 x + 1)" by simp_all
  have "\<not> e + 1 \<le> floor_log2 x"
  proof
    assume "e + 1 \<le> floor_log2 x"
    then have "(2::rat) powi (e + 1) \<le> 2 powi floor_log2 x"
      by (rule power_int_increasing) simp
    with b(1) assms(3) show False by simp
  qed
  moreover have "\<not> floor_log2 x + 1 \<le> e"
  proof
    assume "floor_log2 x + 1 \<le> e"
    then have "(2::rat) powi (floor_log2 x + 1) \<le> 2 powi e"
      by (rule power_int_increasing) simp
    with b(2) assms(2) show False by simp
  qed
  ultimately show ?thesis by simp
qed

lemma round_half_even_near:
  assumes "\<bar>x - of_int m\<bar> < 1 / 2"
  shows "round_half_even x = m"
proof (cases "of_int m \<le> x")
  case True
  with assms have "\<lfloor>x\<rfloor> = m" by (intro floor_unique) simp_all
  with assms True show ?thesis by (simp add: round_half_even_def Let_def)
next
  case False
  with assms have f: "\<lfloor>x\<rfloor> = m - 1" by (intro floor_unique) simp_all
  from False assms have "1 / 2 < x - of_int (m - 1)" by simp
  with f show ?thesis by (simp add: round_half_even_def Let_def)
qed

lemma round_half_even_tie_down:
  assumes "x = of_int m + 1 / 2" and "even m"
  shows "round_half_even x = m"
proof -
  from assms(1) have "\<lfloor>x\<rfloor> = m" by (intro floor_unique) simp_all
  with assms show ?thesis by (simp add: round_half_even_def Let_def)
qed

lemma round_half_even_tie_up:
  assumes "x = of_int m - 1 / 2" and "even m"
  shows "round_half_even x = m"
proof -
  from assms(1) have f: "\<lfloor>x\<rfloor> = m - 1" by (intro floor_unique) simp_all
  from assms(1) have "x - of_int (m - 1) = 1 / 2" by simp
  with f assms(2) show ?thesis by (simp add: round_half_even_def Let_def)
qed

lemma double_of_rat_small:
  assumes "1 \<le> x * 2 ^ k" and "x * 2 ^ k < 2" and "k \<le> 1022"
    and "round_half_even (x * 2 ^ (k + 52)) = m"
  shows "double_of_rat x = of_int m / 2 ^ (k + 52)"
proof -
  have pk: "(2::rat) powi (- int k) = 1 / 2 ^ k"
    by (simp add: power_int_minus divide_inverse)
  have "(2::rat) powi (- int k + 1) = 2 powi (- int k) * 2 powi 1"
    by (rule power_int_add) simp
  then have pk1: "(2::rat) powi (- int k + 1) = 2 / 2 ^ k"
    by (simp only: pk power_int_1_right)
  from assms(1) have "0 < x * 2 ^ k" by simp
  then have xpos: "0 < x" by (simp add: zero_less_mult_iff)
  have "1 / 2 ^ k \<le> x" using assms(1) by (simp add: field_simps)
  then have "2 powi (- int k) \<le> x" by (simp only: pk)
  moreover have "x < 2 / 2 ^ k" using assms(2) by (simp add: field_simps)
  then have "x < 2 powi (- int k + 1)" by (simp only: pk1)
  ultimately have e: "floor_log2 x = - int k" using xpos
    by (intro floor_log2_unique) simp_all
  have ax: "\<bar>x\<bar> = x" using xpos by simp
  have mx: "max (- int k) (- 1022) = - int k" using assms(3) by simp
  have u: "(2::rat) powi (- int k - 52) = 1 / 2 ^ (k + 52)"
  proof -
    have "- int k - 52 = - int (k + 52)" by simp
    then show ?thesis by (simp only: power_int_minus power_int_of_nat divide_inverse mult_1)
  qed
  show ?thesis
    using xpos assms(4) by (simp add: double_of_rat_def ax e mx u Let_def)
qed

section \<open>The doubles of the score constants\<close>

lemma double_7_10: "double_of_rat (7 / 10) = 6305039478318694 / 2 ^ 53"
proof -
  have r: "round_half_even (7 / 10 * 2 ^ (1 + 52)) = 6305039478318694"
    by (rule round_half_even_near) simp
  show ?thesis using double_of_rat_small [of "7 / 10" 1, OF _ _ _ r] by simp
qed

lemma double_2_10: "double_of_rat (2 / 10) = 7205759403792794 / 2 ^ 55"
proof -
  have r: "round_half_even (2 / 10 * 2 ^ (3 + 52)) = 7205759403792794"
    by (rule round_half_even_near) simp
  show ?thesis using double_of_rat_small [of "2 / 10" 3, OF _ _ _ r] by simp
qed

lemma double_9_10: "double_of_rat (9 / 10) = 8106479329266893 / 2 ^ 53"
proof -
  have r: "round_half_even (9 / 10 * 2 ^ (1 + 52)) = 8106479329266893"
    by (rule round_half_even_near) simp
  show ?thesis using double_of_rat_small [of "9 / 10" 1, OF _ _ _ r] by simp
qed

lemma double_95_100: "double_of_rat (95 / 100) = 8556839292003942 / 2 ^ 53"
proof -
  have r: "round_half_even (95 / 100 * 2 ^ (1 + 52)) = 8556839292003942"
    by (rule round_half_even_near) simp
  show ?thesis using double_of_rat_small [of "95 / 100" 1, OF _ _ _ r] by simp
qed

lemma double_half: "double_of_rat (1 / 2) = 1 / 2"
proof -
  have r: "round_half_even (1 / 2 * 2 ^ (1 + 52)) = 4503599627370496"
    by (rule round_half_even_near) simp
  show ?thesis using double_of_rat_small [of "1 / 2" 1, OF _ _ _ r] by simp
qed

text \<open>A double is its own rounding: \<^verbatim>\<open>0.2 * 1.0\<close> is \<^verbatim>\<open>0.2\<close> and \<^verbatim>\<open>0.7 + 0.0\<close> is \<^verbatim>\<open>0.7\<close>.\<close>

lemma double_2_10_again:
  "double_of_rat (7205759403792794 / 2 ^ 55) = 7205759403792794 / 2 ^ 55"
proof -
  have r: "round_half_even (7205759403792794 / 2 ^ 55 * 2 ^ (3 + 52)) = 7205759403792794"
    by (rule round_half_even_near) simp
  show ?thesis using double_of_rat_small [of "7205759403792794 / 2 ^ 55" 3, OF _ _ _ r] by simp
qed

lemma double_7_10_again:
  "double_of_rat (6305039478318694 / 2 ^ 53) = 6305039478318694 / 2 ^ 53"
proof -
  have r: "round_half_even (6305039478318694 / 2 ^ 53 * 2 ^ (1 + 52)) = 6305039478318694"
    by (rule round_half_even_near) simp
  show ?thesis using double_of_rat_small [of "6305039478318694 / 2 ^ 53" 1, OF _ _ _ r] by simp
qed

text \<open>\<^verbatim>\<open>0.7 + 0.2\<close>: the exact sum lies halfway between two doubles and goes to the one
  with the even significand, the double just below \<^verbatim>\<open>0.9\<close>.\<close>

lemma double_sum_7_2:
  "double_of_rat (6305039478318694 / 2 ^ 53 + 7205759403792794 / 2 ^ 55) = 8106479329266892 / 2 ^ 53"
proof -
  have r: "round_half_even ((6305039478318694 / 2 ^ 53 + 7205759403792794 / 2 ^ 55) * 2 ^ (1 + 52))
      = 8106479329266892"
    by (rule round_half_even_tie_down) simp_all
  show ?thesis
    using double_of_rat_small [of "6305039478318694 / 2 ^ 53 + 7205759403792794 / 2 ^ 55" 1, OF _ _ _ r]
    by simp
qed

lemma context_coherence_values:
  "float_add (double_of_rat (7 / 10)) (float_mul (double_of_rat (2 / 10)) 1) = 8106479329266892 / 2 ^ 53"
  "float_add (double_of_rat (7 / 10)) (float_mul (double_of_rat (2 / 10)) 0) = double_of_rat (7 / 10)"
proof -
  have "float_mul (double_of_rat (2 / 10)) 1 = 7205759403792794 / 2 ^ 55"
    unfolding float_mul_def double_2_10 mult_1_right by (rule double_2_10_again)
  then show "float_add (double_of_rat (7 / 10)) (float_mul (double_of_rat (2 / 10)) 1)
      = 8106479329266892 / 2 ^ 53"
    unfolding float_add_def double_7_10 by (simp only: double_sum_7_2)
  have "float_mul (double_of_rat (2 / 10)) 0 = 0"
    by (simp add: float_mul_def double_of_rat_def)
  then show "float_add (double_of_rat (7 / 10)) (float_mul (double_of_rat (2 / 10)) 0)
      = double_of_rat (7 / 10)"
    unfolding float_add_def double_7_10 by (simp only: add_0_right double_7_10_again)
qed

lemma below_nine_tenths:
  "(8106479329266892 / 2 ^ 53 :: rat) \<noteq> double_of_rat (9 / 10)"
  "double_of_rat (9 / 10) - 8106479329266892 / 2 ^ 53 = 1 / 2 ^ 53"
  unfolding double_9_10 by simp_all

section \<open>The fallback estimate\<close>

lemma re_match_Lit_mismatch:
  "\<not> prefix l s \<Longrightarrow> re_match (Lit l # ts) s g = None"
  by simp

lemma re_search_first_char_absent:
  "c \<notin> set s \<Longrightarrow> re_search (Lit (c # l) # ts) s = None"
proof (induction s)
  case Nil
  then show ?case by simp
next
  case (Cons a s)
  then have "\<not> prefix (c # l) (a # s)" by auto
  then have "re_match (Lit (c # l) # ts) (a # s) None = None" by (rule re_match_Lit_mismatch)
  with Cons show ?case by simp
qed

lemma pattern_starts_with_R:
  "pattern = Lit (CHR ''R'' # ''eliability: '') # tl pattern"
  by (simp add: pattern_def)

lemma re_search_pattern_no_R:
  "CHR ''R'' \<notin> set s \<Longrightarrow> re_search pattern s = None"
  by (subst pattern_starts_with_R) (rule re_search_first_char_absent)

lemma split_loop_word:
  "split_loop (''w '' @ s) [] = ''w'' # split_loop s []"
  by (simp add: is_space_def)

lemma split_words: "split (concat (replicate n ''w '')) = replicate n ''w''"
  unfolding split_def
proof (induction n)
  case 0
  then show ?case by simp
next
  case (Suc n)
  have "split_loop (concat (replicate (Suc n) ''w '')) [] = split_loop (''w '' @ concat (replicate n ''w '')) []"
    by simp
  also have "\<dots> = ''w'' # split_loop (concat (replicate n ''w '')) []"
    by (rule split_loop_word)
  finally show ?case using Suc by simp
qed

lemma lower_words: "lower (concat (replicate n ''w '')) = concat (replicate n ''w '')"
  by (induction n) (simp_all add: lower_def lower_char_def)

lemma set_words: "set (concat (replicate n ''w '')) \<subseteq> {CHR ''w'', CHR '' ''}"
  by (induction n) auto

lemma words_no_context: "\<not> sublist ''context'' (lower (concat (replicate n ''w '')))"
proof
  assume "sublist ''context'' (lower (concat (replicate n ''w '')))"
  then have "set ''context'' \<subseteq> set (concat (replicate n ''w ''))"
    unfolding lower_words by (rule set_mono_sublist)
  with set_words [of n] have "CHR ''c'' \<in> {CHR ''w'', CHR '' ''}" by auto
  then show False by simp
qed

lemma words_no_pattern: "re_search pattern (concat (replicate n ''w '')) = None"
proof (rule re_search_pattern_no_R)
  show "CHR ''R'' \<notin> set (concat (replicate n ''w ''))"
    using set_words [of n] by auto
qed

text \<open>
  Claim C7, as stated, fails on the third score: \<^verbatim>\<open>0.7 + 0.2\<close> in double arithmetic is not
  the double \<^verbatim>\<open>0.9\<close>. The one-word text \<^verbatim>\<open>context\<close> has no confidence block and contains
  the word, and its estimate is not the triple the claim gives.
\<close>

theorem fallback_estimate_counterexample:
  "re_search pattern ''context'' = None
   \<and> sublist ''context'' (lower ''context'')
   \<and> calculate_confidence_scores ''context''
       \<noteq> [min (double_of_rat (of_nat (length (split ''context'')) / 1000)) (double_of_rat (95 / 100)),
           double_of_rat (8 / 10),
           double_of_rat (9 / 10)]"
proof (intro conjI)
  show "re_search pattern ''context'' = None"
    by (rule re_search_pattern_no_R) simp
  have l: "lower ''context'' = ''context''" by code_simp
  show s: "sublist ''context'' (lower ''context'')" unfolding l by simp
  have "calculate_confidence_scores ''context'' ! 2
      = float_add (double_of_rat (7 / 10)) (float_mul (double_of_rat (2 / 10)) 1)"
    unfolding calculate_confidence_scores_def Let_def using s by (simp only: if_True nth_Cons_numeral nth_Cons_Suc nth_Cons_0 numeral_2_eq_2)
  then have "calculate_confidence_scores ''context'' ! 2 = 8106479329266892 / 2 ^ 53"
    by (simp only: context_coherence_values(1))
  with below_nine_tenths(1) show "calculate_confidence_scores ''context''
       \<noteq> [min (double_of_rat (of_nat (length (split ''context'')) / 1000)) (double_of_rat (95 / 100)),
           double_of_rat (8 / 10),
           double_of_rat (9 / 10)]"
    by auto
qed

text \<open>
  Claim C7, amended. For every text the fallback estimate returns
  reliability = min(wordCount / 1000, 0.95), the quotient taken in double arithmetic and
  the words being the runs of non-whitespace characters; performance = 0.8; and
  contextCoherence = 0.7 + 0.2 in double arithmetic, which is 0.8999999999999999, the
  double one unit in the last place (\<open>2\<^sup>-\<^sup>5\<^sup>3\<close>) below 0.9, when the text in lower case
  contains \<^verbatim>\<open>context\<close>, and 0.7 otherwise. It is what \<^verbatim>\<open>extract_confidence_scores\<close> returns
  for every text in which the pattern of the confidence block is not found. In particular
  a text of 500 words without \<^verbatim>\<open>context\<close> yields (0.5, 0.8, 0.7).
\<close>

theorem fallback_estimate:
  "calculate_confidence_scores text =
     [min (double_of_rat (of_nat (length (split text)) / 1000)) (double_of_rat (95 / 100)),
      double_of_rat (8 / 10),
      if sublist ''context'' (lower text) then double_of_rat (9 / 10) - 1 / 2 ^ 53
      else double_of_rat (7 / 10)]
   \<and> (re_search pattern text = None \<longrightarrow>
        extract_confidence_scores text = calculate_confidence_scores text)
   \<and> (length (split text) = 500 \<and> \<not> sublist ''context'' (lower text) \<longrightarrow>
        calculate_confidence_scores text = [1 / 2, double_of_rat (8 / 10), double_of_rat (7 / 10)])"
proof (intro conjI impI)
  have nine: "double_of_rat (9 / 10) - 1 / 2 ^ 53 = 8106479329266892 / 2 ^ 53"
    unfolding double_9_10 by simp
  show general: "calculate_confidence_scores text =
     [min (double_of_rat (of_nat (length (split text)) / 1000)) (double_of_rat (95 / 100)),
      double_of_rat (8 / 10),
      if sublist ''context'' (lower text) then double_of_rat (9 / 10) - 1 / 2 ^ 53
      else double_of_rat (7 / 10)]"
    unfolding nine calculate_confidence_scores_def Let_def float_div_def
    by (cases "sublist ''context'' (lower text)")
       (simp_all only: context_coherence_values if_True if_False)
  show "extract_confidence_scores text = calculate_confidence_scores text"
    if "re_search pattern text = None"
    using that by (simp add: extract_confidence_scores_def)
  show "calculate_confidence_scores text = [1 / 2, double_of_rat (8 / 10), double_of_rat (7 / 10)]"
    if h: "length (split text) = 500 \<and> \<not> sublist ''context'' (lower text)"
  proof -
    have "double_of_rat (of_nat (length (split text)) / 1000) = 1 / 2"
      using h double_half by simp
    moreover have "min (1 / 2) (double_of_rat (95 / 100)) = 1 / 2"
      unfolding double_95_100 by simp
    ultimately show ?thesis using h by (simp add: general)
  qed
qed

text \<open>Five hundred times the word \<^verbatim>\<open>w\<close>.\<close>

theorem fallback_estimate_witness:
  "re_search pattern (concat (replicate 500 ''w '')) = None
   \<and> length (split (concat (replicate 500 ''w ''))) = 500
   \<and> \<not> sublist ''context'' (lower (concat (replicate 500 ''w '')))
   \<and> extract_confidence_scores (concat (replicate 500 ''w ''))
       = [1 / 2, double_of_rat (8 / 10), double_of_rat (7 / 10)]"
proof -
  let ?t = "concat (replicate 500 ''w '')"
  note inst = fallback_estimate [of ?t]
  have a: "re_search pattern ?t = None" by (rule words_no_pattern)
  have b: "length (split ?t) = 500" by (simp add: split_words)
  have c: "\<not> sublist ''context'' (lower ?t)" by (rule words_no_context)
  from inst [THEN conjunct2, THEN conjunct1, rule_format, OF a]
  have e: "extract_confidence_scores ?t = calculate_confidence_scores ?t" .
  from inst [THEN conjunct2, THEN conjunct2, rule_format, OF conjI [OF b c]]
  have "calculate_confidence_scores ?t = [1 / 2, double_of_rat (8 / 10), double_of_rat (7 / 10)]" .
  with e have f: "extract_confidence_scores ?t = [1 / 2, double_of_rat (8 / 10), double_of_rat (7 / 10)]"
    by simp
  show ?thesis
  proof (intro conjI)
    show "re_search pattern ?t = None" by (rule a)
    show "length (split ?t) = 500" by (rule b)
    show "\<not> sublist ''context'' (lower ?t)" by (rule c)
    show "extract_confidence_scores ?t = [1 / 2, double_of_rat (8 / 10), double_of_rat (7 / 10)]"
      by (rule f)
  qed
qed

section \<open>What the pattern finds\<close>

lemma grow_simps [simp]:
  "grow None s = None"
  "grow (Some x) s = Some (x @ s)"
  "grow g [] = g"
  "grow (grow g a) b = grow g (a @ b)"
  by (simp_all add: grow_def option.map_comp comp_def option.map_ident)

subsection \<open>A match that is found has the shape of the pattern\<close>
















subsection \<open>A block in the text is found\<close>












subsection \<open>The scores that are extracted\<close>













section \<open>No operation checks the chain\<close>






end
